theory Spec2Isabelle
  imports Complex_Main
begin

section \<open>JavaScript values\<close>

text \<open>
  The rule and the data are values of TypeScript type \<open>unknown\<close>: JSON values, and
  \<open>undefined\<close>. An object is the list of its own enumerable properties in the order in
  which \<open>Object.values\<close> enumerates them. The loop of \<open>hasKey\<close> can also reach what a
  JSON value inherits from the built-in prototypes (the operator \<open>in\<close> and a property read
  both walk the prototype chain), so the built-in function objects and the two prototype
  objects are values too.
\<close>

datatype jsvalue =
    JNull
  | JUndefined
  | JBool bool
  | JNum real
  | JStr string
  | JArr "jsvalue list"
  | JObj "(string \<times> jsvalue) list"
  | JBuiltinFunction
  | JObjectPrototype
  | JArrayPrototype

text \<open>
  What a JavaScript operation can raise. A \<open>RangeError\<close> is raised by a call for which
  the call stack has no frame left. \<open>OutsideModel\<close> stands for the operations whose
  result this development does not describe (the properties of primitives and of built-in
  function objects); the code never performs them.
\<close>

datatype error = TypeError | RangeError | OutsideModel

fun typeof :: "jsvalue \<Rightarrow> string" where
  "typeof JNull = ''object''"
| "typeof JUndefined = ''undefined''"
| "typeof (JBool b) = ''boolean''"
| "typeof (JNum n) = ''number''"
| "typeof (JStr s) = ''string''"
| "typeof (JArr items) = ''object''"
| "typeof (JObj props) = ''object''"
| "typeof JBuiltinFunction = ''function''"
| "typeof JObjectPrototype = ''object''"
| "typeof JArrayPrototype = ''object''"

text \<open>The test \<open>x == null\<close>.\<close>

fun is_nullish :: "jsvalue \<Rightarrow> bool" where
  "is_nullish JNull = True"
| "is_nullish JUndefined = True"
| "is_nullish _ = False"

text \<open>\<open>Array.isArray\<close>; \<open>Array.prototype\<close> is itself an (empty) array.\<close>

fun isArray :: "jsvalue \<Rightarrow> bool" where
  "isArray (JArr items) = True"
| "isArray JArrayPrototype = True"
| "isArray _ = False"

subsection \<open>Properties\<close>

text \<open>The canonical decimal numeral of an array index, as a property name.\<close>

fun show_nat :: "nat \<Rightarrow> string" where
  "show_nat n =
     (if n < 10 then [''0123456789'' ! n]
      else show_nat (n div 10) @ [''0123456789'' ! (n mod 10)])"

declare show_nat.simps [simp del]

definition index_of_key :: "string \<Rightarrow> nat \<Rightarrow> nat option" where
  "index_of_key k n = find (\<lambda>i. show_nat i = k) [0..<n]"

text \<open>
  The string-named properties of \<open>Object.prototype\<close> and of \<open>Array.prototype\<close> that hold
  functions (ECMAScript 2023, with its Annex B).
\<close>

definition object_prototype_methods :: "string list" where
  "object_prototype_methods =
     [''constructor'', ''hasOwnProperty'', ''isPrototypeOf'', ''propertyIsEnumerable'',
      ''toLocaleString'', ''toString'', ''valueOf'',
      ''__defineGetter__'', ''__defineSetter__'', ''__lookupGetter__'', ''__lookupSetter__'']"

definition array_prototype_methods :: "string list" where
  "array_prototype_methods =
     [''at'', ''concat'', ''constructor'', ''copyWithin'', ''entries'', ''every'', ''fill'',
      ''filter'', ''find'', ''findIndex'', ''findLast'', ''findLastIndex'', ''flat'',
      ''flatMap'', ''forEach'', ''includes'', ''indexOf'', ''join'', ''keys'',
      ''lastIndexOf'', ''map'', ''pop'', ''push'', ''reduce'', ''reduceRight'', ''reverse'',
      ''shift'', ''slice'', ''some'', ''sort'', ''splice'', ''toLocaleString'',
      ''toReversed'', ''toSorted'', ''toSpliced'', ''toString'', ''unshift'', ''values'',
      ''with'']"

text \<open>
  The properties a value owns directly. An array owns its indices and \<open>length\<close>.
  \<open>__proto__\<close> is an accessor of \<open>Object.prototype\<close>: read on \<open>Object.prototype\<close>
  itself it gives \<open>null\<close>.
\<close>

fun own_property :: "jsvalue \<Rightarrow> string \<Rightarrow> jsvalue option" where
  "own_property (JObj props) k = map_of props k"
| "own_property (JArr items) k =
     (case index_of_key k (length items) of
        Some i \<Rightarrow> Some (items ! i)
      | None \<Rightarrow> if k = ''length'' then Some (JNum (real (length items))) else None)"
| "own_property JObjectPrototype k =
     (if k \<in> set object_prototype_methods then Some JBuiltinFunction
      else if k = ''__proto__'' then Some JNull
      else None)"
| "own_property JArrayPrototype k =
     (if k = ''length'' then Some (JNum 0)
      else if k \<in> set array_prototype_methods then Some JBuiltinFunction
      else None)"
| "own_property _ k = None"

text \<open>
  The properties found further up the prototype chain: a plain object inherits from
  \<open>Object.prototype\<close>, an array from \<open>Array.prototype\<close> and then \<open>Object.prototype\<close>.
  The inherited accessor \<open>__proto__\<close> gives the prototype of the value it is read on.
\<close>

fun inherited_property :: "jsvalue \<Rightarrow> string \<Rightarrow> jsvalue option" where
  "inherited_property (JObj props) k =
     (if k = ''__proto__'' then Some JObjectPrototype else own_property JObjectPrototype k)"
| "inherited_property (JArr items) k =
     (case own_property JArrayPrototype k of
        Some v \<Rightarrow> Some v
      | None \<Rightarrow>
          if k = ''__proto__'' then Some JArrayPrototype else own_property JObjectPrototype k)"
| "inherited_property JArrayPrototype k =
     (if k = ''__proto__'' then Some JObjectPrototype else own_property JObjectPrototype k)"
| "inherited_property _ k = None"

definition property :: "jsvalue \<Rightarrow> string \<Rightarrow> jsvalue option" where
  "property v k =
     (case own_property v k of Some x \<Rightarrow> Some x | None \<Rightarrow> inherited_property v k)"

text \<open>\<open>k in v\<close>: a \<open>TypeError\<close> when \<open>v\<close> is not an object.\<close>

fun js_in :: "string \<Rightarrow> jsvalue \<Rightarrow> error + bool" where
  "js_in k JNull = Inl TypeError"
| "js_in k JUndefined = Inl TypeError"
| "js_in k (JBool b) = Inl TypeError"
| "js_in k (JNum n) = Inl TypeError"
| "js_in k (JStr s) = Inl TypeError"
| "js_in k JBuiltinFunction = Inl OutsideModel"
| "js_in k v = Inr (property v k \<noteq> None)"

text \<open>\<open>v[k]\<close>: a \<open>TypeError\<close> on \<open>null\<close> and \<open>undefined\<close>, \<open>undefined\<close> for a missing property.\<close>

fun js_get :: "jsvalue \<Rightarrow> string \<Rightarrow> error + jsvalue" where
  "js_get JNull k = Inl TypeError"
| "js_get JUndefined k = Inl TypeError"
| "js_get (JBool b) k = Inl OutsideModel"
| "js_get (JNum n) k = Inl OutsideModel"
| "js_get (JStr s) k = Inl OutsideModel"
| "js_get JBuiltinFunction k = Inl OutsideModel"
| "js_get v k = Inr (case property v k of Some x \<Rightarrow> x | None \<Rightarrow> JUndefined)"

text \<open>\<open>s.split('.')\<close>\<close>

fun split_dot :: "string \<Rightarrow> string list" where
  "split_dot [] = [[]]"
| "split_dot (c # cs) =
     (if c = CHR ''.'' then [] # split_dot cs
      else (case split_dot cs of
              seg # segs \<Rightarrow> (c # seg) # segs
            | [] \<Rightarrow> [[c]]))"

section \<open>analyzer.ts\<close>

text \<open>
  \<open>keys\<close> is a JavaScript \<open>Set\<close> of strings: its elements in insertion order, each once.
  \<open>keys.add(k)\<close> appends \<open>k\<close> unless it is there already; \<open>Array.from(keys)\<close> is the list.
\<close>

definition Set_add :: "string list \<Rightarrow> string \<Rightarrow> string list" where
  "Set_add keys k = (if k \<in> set keys then keys else keys @ [k])"

text \<open>
  Lines 64 to 73 of \<open>traverse\<close>, on a node that is a non-null, non-array object: the test
  \<open>'var' in obj\<close> and the two forms of \<open>obj.var\<close> that add a key.
\<close>

definition record_var :: "jsvalue \<Rightarrow> string list \<Rightarrow> error + string list" where
  "record_var obj keys =
     (case js_in ''var'' obj of
        Inl e \<Rightarrow> Inl e
      | Inr present \<Rightarrow>
          if \<not> present then Inr keys
          else (case js_get obj ''var'' of
                  Inl e \<Rightarrow> Inl e
                | Inr varValue \<Rightarrow>
                    (case varValue of
                       JStr s \<Rightarrow> Inr (Set_add keys s)
                     | _ \<Rightarrow>
                        if isArray varValue then
                          (case js_get varValue ''0'' of
                             Inl e \<Rightarrow> Inl e
                           | Inr (JStr s) \<Rightarrow> Inr (Set_add keys s)
                           | Inr _ \<Rightarrow> Inr keys)
                        else Inr keys)))"

text \<open>
  \<open>traverse\<close>, with the set \<open>keys\<close> passed through. \<open>traverse_items\<close> is the loop over the
  elements of an array, \<open>traverse_values\<close> the loop over \<open>Object.values(obj)\<close>.
  \<open>Object.prototype\<close> has no enumerable property and \<open>Array.prototype\<close> no element.
\<close>

fun traverse :: "jsvalue \<Rightarrow> string list \<Rightarrow> error + string list"
  and traverse_items :: "jsvalue list \<Rightarrow> string list \<Rightarrow> error + string list"
  and traverse_values :: "(string \<times> jsvalue) list \<Rightarrow> string list \<Rightarrow> error + string list"
where
  "traverse JNull keys = Inr keys"
| "traverse JUndefined keys = Inr keys"
| "traverse (JArr items) keys = traverse_items items keys"
| "traverse JArrayPrototype keys = traverse_items [] keys"
| "traverse (JObj props) keys =
     (case record_var (JObj props) keys of
        Inl e \<Rightarrow> Inl e
      | Inr keys' \<Rightarrow> traverse_values props keys')"
| "traverse JObjectPrototype keys =
     (case record_var JObjectPrototype keys of
        Inl e \<Rightarrow> Inl e
      | Inr keys' \<Rightarrow> traverse_values [] keys')"
| "traverse (JBool b) keys = Inr keys"
| "traverse (JNum n) keys = Inr keys"
| "traverse (JStr s) keys = Inr keys"
| "traverse JBuiltinFunction keys = Inr keys"
| "traverse_items [] keys = Inr keys"
| "traverse_items (item # rest) keys =
     (case traverse item keys of
        Inl e \<Rightarrow> Inl e
      | Inr keys' \<Rightarrow> traverse_items rest keys')"
| "traverse_values [] keys = Inr keys"
| "traverse_values (kv # rest) keys =
     (case traverse (snd kv) keys of
        Inl e \<Rightarrow> Inl e
      | Inr keys' \<Rightarrow> traverse_values rest keys')"

definition getRequiredKeys :: "jsvalue \<Rightarrow> error + string list" where
  "getRequiredKeys rule = traverse rule []"

section \<open>validator.ts\<close>

text \<open>The loop of \<open>hasKey\<close> over the segments, with \<open>current\<close> passed through.\<close>

fun hasKey_loop :: "jsvalue \<Rightarrow> string list \<Rightarrow> error + bool" where
  "hasKey_loop current [] = Inr True"
| "hasKey_loop current (key # keys) =
     (if is_nullish current \<or> typeof current \<noteq> ''object'' then Inr False
      else (case js_in key current of
              Inl e \<Rightarrow> Inl e
            | Inr present \<Rightarrow>
                if \<not> present then Inr False
                else (case js_get current key of
                        Inl e \<Rightarrow> Inl e
                      | Inr v \<Rightarrow> hasKey_loop v keys)))"

definition hasKey :: "jsvalue \<Rightarrow> string \<Rightarrow> error + bool" where
  "hasKey data keyPath = hasKey_loop data (split_dot keyPath)"

text \<open>The loop of \<open>canExecuteRule\<close> over the required keys.\<close>

fun check_keys :: "jsvalue \<Rightarrow> string list \<Rightarrow> error + bool" where
  "check_keys data [] = Inr True"
| "check_keys data (key # rest) =
     (case hasKey data key of
        Inl e \<Rightarrow> Inl e
      | Inr found \<Rightarrow> if \<not> found then Inr False else check_keys data rest)"

definition canExecuteRule :: "jsvalue \<Rightarrow> jsvalue \<Rightarrow> error + bool" where
  "canExecuteRule rule data =
     (case getRequiredKeys rule of
        Inl e \<Rightarrow> Inl e
      | Inr requiredKeys \<Rightarrow>
          if length requiredKeys = 0 then Inr True else check_keys data requiredKeys)"

section \<open>The call stack\<close>

text \<open>
  \<open>traverse\<close> calls itself once for every element of an array and every property value
  of an object (lines 54 and 77), with no bound on the depth and no \<open>try\<close>: a call that
  finds the call stack full raises a \<open>RangeError\<close>, which leaves \<open>getRequiredKeys\<close> and
  \<open>canExecuteRule\<close> uncaught. The size of the stack belongs to the JavaScript engine; it is
  the parameter \<open>frames\<close>, the number of nested calls of \<open>traverse\<close> for which there is
  room. The functions of the sections above are the code on a stack that is never full.
\<close>

fun traverse_stack :: "nat \<Rightarrow> jsvalue \<Rightarrow> string list \<Rightarrow> error + string list"
  and traverse_items_stack :: "nat \<Rightarrow> jsvalue list \<Rightarrow> string list \<Rightarrow> error + string list"
  and traverse_values_stack ::
    "nat \<Rightarrow> (string \<times> jsvalue) list \<Rightarrow> string list \<Rightarrow> error + string list"
where
  "traverse_stack 0 node keys = Inl RangeError"
| "traverse_stack (Suc frames) JNull keys = Inr keys"
| "traverse_stack (Suc frames) JUndefined keys = Inr keys"
| "traverse_stack (Suc frames) (JArr items) keys = traverse_items_stack frames items keys"
| "traverse_stack (Suc frames) JArrayPrototype keys = traverse_items_stack frames [] keys"
| "traverse_stack (Suc frames) (JObj props) keys =
     (case record_var (JObj props) keys of
        Inl e \<Rightarrow> Inl e
      | Inr keys' \<Rightarrow> traverse_values_stack frames props keys')"
| "traverse_stack (Suc frames) JObjectPrototype keys =
     (case record_var JObjectPrototype keys of
        Inl e \<Rightarrow> Inl e
      | Inr keys' \<Rightarrow> traverse_values_stack frames [] keys')"
| "traverse_stack (Suc frames) (JBool b) keys = Inr keys"
| "traverse_stack (Suc frames) (JNum n) keys = Inr keys"
| "traverse_stack (Suc frames) (JStr s) keys = Inr keys"
| "traverse_stack (Suc frames) JBuiltinFunction keys = Inr keys"
| "traverse_items_stack frames [] keys = Inr keys"
| "traverse_items_stack frames (item # rest) keys =
     (case traverse_stack frames item keys of
        Inl e \<Rightarrow> Inl e
      | Inr keys' \<Rightarrow> traverse_items_stack frames rest keys')"
| "traverse_values_stack frames [] keys = Inr keys"
| "traverse_values_stack frames (kv # rest) keys =
     (case traverse_stack frames (snd kv) keys of
        Inl e \<Rightarrow> Inl e
      | Inr keys' \<Rightarrow> traverse_values_stack frames rest keys')"

definition getRequiredKeys_stack :: "nat \<Rightarrow> jsvalue \<Rightarrow> error + string list" where
  "getRequiredKeys_stack frames rule = traverse_stack frames rule []"

definition canExecuteRule_stack :: "nat \<Rightarrow> jsvalue \<Rightarrow> jsvalue \<Rightarrow> error + bool" where
  "canExecuteRule_stack frames rule data =
     (case getRequiredKeys_stack frames rule of
        Inl e \<Rightarrow> Inl e
      | Inr requiredKeys \<Rightarrow>
          if length requiredKeys = 0 then Inr True else check_keys data requiredKeys)"

text \<open>
  The nesting depth of a value: the number of nested calls of \<open>traverse\<close> that its
  traversal needs, one for the value and then the most that an element or a property value
  needs.
\<close>

fun depth :: "jsvalue \<Rightarrow> nat"
  and depth_items :: "jsvalue list \<Rightarrow> nat"
  and depth_values :: "(string \<times> jsvalue) list \<Rightarrow> nat"
where
  "depth (JArr items) = Suc (depth_items items)"
| "depth (JObj props) = Suc (depth_values props)"
| "depth JNull = 1"
| "depth JUndefined = 1"
| "depth (JBool b) = 1"
| "depth (JNum n) = 1"
| "depth (JStr s) = 1"
| "depth JBuiltinFunction = 1"
| "depth JObjectPrototype = 1"
| "depth JArrayPrototype = 1"
| "depth_items [] = 0"
| "depth_items (item # rest) = max (depth item) (depth_items rest)"
| "depth_values [] = 0"
| "depth_values (kv # rest) = max (depth (snd kv)) (depth_values rest)"

text \<open>The value \<open>v\<close> inside \<open>n\<close> nested one-element arrays: \<open>[[...[v]...]]\<close>.\<close>

primrec nest :: "nat \<Rightarrow> jsvalue \<Rightarrow> jsvalue" where
  "nest 0 v = v"
| "nest (Suc n) v = JArr [nest n v]"

section \<open>evaluator.ts\<close>

text \<open>
  What a JavaScript computation can throw: an instance of \<open>Error\<close> with its message, or
  any other value. The JSONLogic engine \<open>jsonLogic.apply\<close> is an external library; it is
  a parameter, a function from the rule and the data to a thrown value or a result.
\<close>

datatype thrown = ErrorInstance string | OtherThrown jsvalue

definition evaluateRule ::
  "(jsvalue \<Rightarrow> jsvalue \<Rightarrow> thrown + jsvalue) \<Rightarrow> jsvalue \<Rightarrow> jsvalue \<Rightarrow> thrown + jsvalue" where
  "evaluateRule jsonLogic_apply rule data =
     (case jsonLogic_apply rule (if is_nullish data then JObj [] else data) of
        Inr result \<Rightarrow> Inr result
      | Inl (ErrorInstance message) \<Rightarrow>
          Inl (ErrorInstance (''Failed to evaluate rule: '' @ message))
      | Inl (OtherThrown v) \<Rightarrow>
          Inl (ErrorInstance ''Failed to evaluate rule: Unknown error''))"

section \<open>The traversal, as the specification describes it\<close>

text \<open>
  What step 3a of the specification records at an object node with own properties
  \<open>props\<close>: the value of \<open>var\<close> when it is a string, its first element when it is an
  array that starts with a string, nothing otherwise.
\<close>

definition var_path :: "(string \<times> jsvalue) list \<Rightarrow> string list" where
  "var_path props =
     (case map_of props ''var'' of
        Some (JStr s) \<Rightarrow> [s]
      | Some (JArr (JStr s # rest)) \<Rightarrow> [s]
      | _ \<Rightarrow> [])"

text \<open>
  The paths recorded during the pre-order, depth-first, left-to-right traversal, in the
  order of recording and with repetitions.
\<close>

fun recorded :: "jsvalue \<Rightarrow> string list"
  and recorded_items :: "jsvalue list \<Rightarrow> string list"
  and recorded_values :: "(string \<times> jsvalue) list \<Rightarrow> string list"
where
  "recorded (JArr items) = recorded_items items"
| "recorded (JObj props) = var_path props @ recorded_values props"
| "recorded JNull = []"
| "recorded JUndefined = []"
| "recorded (JBool b) = []"
| "recorded (JNum n) = []"
| "recorded (JStr s) = []"
| "recorded JBuiltinFunction = []"
| "recorded JObjectPrototype = []"
| "recorded JArrayPrototype = []"
| "recorded_items [] = []"
| "recorded_items (item # rest) = recorded item @ recorded_items rest"
| "recorded_values [] = []"
| "recorded_values (kv # rest) = recorded (snd kv) @ recorded_values rest"

text \<open>The nodes the traversal visits, in pre-order: the node, then what its children visit.\<close>

fun visited :: "jsvalue \<Rightarrow> jsvalue list"
  and visited_items :: "jsvalue list \<Rightarrow> jsvalue list"
  and visited_values :: "(string \<times> jsvalue) list \<Rightarrow> jsvalue list"
where
  "visited (JArr items) = JArr items # visited_items items"
| "visited (JObj props) = JObj props # visited_values props"
| "visited JNull = [JNull]"
| "visited JUndefined = [JUndefined]"
| "visited (JBool b) = [JBool b]"
| "visited (JNum n) = [JNum n]"
| "visited (JStr s) = [JStr s]"
| "visited JBuiltinFunction = [JBuiltinFunction]"
| "visited JObjectPrototype = [JObjectPrototype]"
| "visited JArrayPrototype = [JArrayPrototype]"
| "visited_items [] = []"
| "visited_items (item # rest) = visited item @ visited_items rest"
| "visited_values [] = []"
| "visited_values (kv # rest) = visited (snd kv) @ visited_values rest"

text \<open>Deduplication by first occurrence: an element stays where it first occurs.\<close>

fun dedup_first :: "'a list \<Rightarrow> 'a list" where
  "dedup_first [] = []"
| "dedup_first (x # xs) = x # dedup_first (filter (\<lambda>y. y \<noteq> x) xs)"

text \<open>
  The existence of a path, as the specification describes the walk of \<open>hasKey\<close> over
  the segments, with the test of the operator \<open>in\<close>: the current value must be neither
  \<open>null\<close> nor \<open>undefined\<close>, must be an object, and must have a property of the
  segment's name, its own or an inherited one; the walk goes on in that property's value.
\<close>

fun path_exists :: "jsvalue \<Rightarrow> string list \<Rightarrow> bool" where
  "path_exists current [] = True"
| "path_exists current (segment # segments) =
     (\<not> is_nullish current \<and> typeof current = ''object'' \<and>
      (case property current segment of
         None \<Rightarrow> False
       | Some v \<Rightarrow> path_exists v segments))"

section \<open>Properties of the built-in objects\<close>

lemma show_nat_0: "show_nat 0 = ''0''"
  by (simp add: show_nat.simps)

lemma index_of_key_0: "index_of_key ''0'' n = (if n = 0 then None else Some 0)"
  by (cases n) (simp_all add: index_of_key_def upt_conv_Cons show_nat_0 del: upt_Suc)

lemma var_not_inherited:
  "''var'' \<notin> set object_prototype_methods"
  "''var'' \<notin> set array_prototype_methods"
  by (simp_all add: object_prototype_methods_def array_prototype_methods_def)

lemma zero_not_inherited:
  "''0'' \<notin> set object_prototype_methods"
  "''0'' \<notin> set array_prototype_methods"
  by (simp_all add: object_prototype_methods_def array_prototype_methods_def)

lemma property_JObj_var: "property (JObj props) ''var'' = map_of props ''var''"
  by (simp add: property_def var_not_inherited split: option.splits)

lemma property_JArr_0:
  "property (JArr items) ''0'' = (case items of [] \<Rightarrow> None | x # xs \<Rightarrow> Some x)"
  by (simp add: property_def index_of_key_0 zero_not_inherited split: list.splits)

lemma property_JArrayPrototype_0: "property JArrayPrototype ''0'' = None"
  by (simp add: property_def zero_not_inherited)

section \<open>The traversal records what the specification describes\<close>

lemma record_var_JObj:
  "record_var (JObj props) keys = Inr (fold (\<lambda>k acc. Set_add acc k) (var_path props) keys)"
  by (simp add: record_var_def var_path_def property_JObj_var property_JArr_0
      property_JArrayPrototype_0 split: option.splits jsvalue.splits list.splits)

lemma record_var_JObjectPrototype: "record_var JObjectPrototype keys = Inr keys"
  by (simp add: record_var_def property_def var_not_inherited)

lemma traverse_fold:
  "traverse node keys = Inr (fold (\<lambda>k acc. Set_add acc k) (recorded node) keys)"
  "traverse_items items keys = Inr (fold (\<lambda>k acc. Set_add acc k) (recorded_items items) keys)"
  "traverse_values props keys = Inr (fold (\<lambda>k acc. Set_add acc k) (recorded_values props) keys)"
  by (induction node keys and items keys and props keys
      rule: traverse_traverse_items_traverse_values.induct)
    (simp_all add: record_var_JObj record_var_JObjectPrototype)

lemma fold_Set_add:
  "fold (\<lambda>k acc. Set_add acc k) xs keys = keys @ dedup_first (filter (\<lambda>x. x \<notin> set keys) xs)"
proof (induction xs arbitrary: keys)
  case Nil
  then show ?case by simp
next
  case (Cons x xs)
  have "filter (\<lambda>y. y \<noteq> x) (filter (\<lambda>y. y \<notin> set keys) xs)
      = filter (\<lambda>y. y \<notin> set (keys @ [x])) xs"
    by (induction xs) auto
  with Cons show ?case
    by (simp add: Set_add_def)
qed

lemma set_dedup_first: "set (dedup_first xs) = set xs"
  by (induction xs rule: dedup_first.induct) auto

lemma distinct_dedup_first: "distinct (dedup_first xs)"
  by (induction xs rule: dedup_first.induct) (auto simp: set_dedup_first)

lemma dedup_first_append:
  "dedup_first (xs @ ys) = dedup_first xs @ dedup_first (filter (\<lambda>y. y \<notin> set xs) ys)"
proof (induction xs arbitrary: ys rule: dedup_first.induct)
  case 1
  then show ?case by simp
next
  case (2 x xs)
  have "filter (\<lambda>y. y \<notin> set (filter (\<lambda>y. y \<noteq> x) xs)) (filter (\<lambda>y. y \<noteq> x) ys)
      = filter (\<lambda>y. y \<notin> set (x # xs)) ys"
    by (induction ys) auto
  with 2[of "filter (\<lambda>y. y \<noteq> x) ys"] show ?case
    by simp
qed

lemma getRequiredKeys_recorded: "getRequiredKeys rule = Inr (dedup_first (recorded rule))"
  by (simp add: getRequiredKeys_def traverse_fold fold_Set_add)

lemma keys_of_rule: "getRequiredKeys rule = Inr ks \<Longrightarrow> set ks = set (recorded rule)"
  by (auto simp: getRequiredKeys_recorded set_dedup_first)

lemma recorded_visited:
  "n \<in> set (visited node) \<Longrightarrow> set (recorded n) \<subseteq> set (recorded node)"
  "n \<in> set (visited_items items) \<Longrightarrow> set (recorded n) \<subseteq> set (recorded_items items)"
  "n \<in> set (visited_values props) \<Longrightarrow> set (recorded n) \<subseteq> set (recorded_values props)"
  by (induction node and items and props rule: visited_visited_items_visited_values.induct)
     auto

lemma visited_trans:
  "n \<in> set (visited node) \<Longrightarrow> set (visited n) \<subseteq> set (visited node)"
  "n \<in> set (visited_items items) \<Longrightarrow> set (visited n) \<subseteq> set (visited_items items)"
  "n \<in> set (visited_values props) \<Longrightarrow> set (visited n) \<subseteq> set (visited_values props)"
  by (induction node and items and props rule: visited_visited_items_visited_values.induct)
     auto

lemma visited_self: "node \<in> set (visited node)"
  by (cases node) simp_all

lemma visited_items_mem: "x \<in> set items \<Longrightarrow> set (visited x) \<subseteq> set (visited_items items)"
  by (induction items) auto

lemma visited_values_mem:
  "(k, v) \<in> set props \<Longrightarrow> set (visited v) \<subseteq> set (visited_values props)"
  by (induction props) auto

lemma own_var:
  assumes "js_in ''var'' (JObj props) = Inr True" and "js_get (JObj props) ''var'' = Inr v"
  shows "map_of props ''var'' = Some v"
  using assms by (auto simp: property_JObj_var split: option.splits)

lemma var_path_recorded:
  assumes "JObj props \<in> set (visited rule)" and "getRequiredKeys rule = Inr ks"
  shows "set (var_path props) \<subseteq> set ks"
proof -
  have "set (recorded (JObj props)) \<subseteq> set (recorded rule)"
    using assms(1) by (rule recorded_visited(1))
  then show ?thesis
    using keys_of_rule[OF assms(2)] by simp
qed

lemma visited_property_value:
  assumes "JObj props \<in> set (visited rule)" and "(k, v) \<in> set props"
  shows "set (visited v) \<subseteq> set (visited rule)"
proof -
  have "set (visited v) \<subseteq> set (visited_values props)"
    using assms(2) by (rule visited_values_mem)
  then have "set (visited v) \<subseteq> set (visited (JObj props))"
    by auto
  also have "\<dots> \<subseteq> set (visited rule)"
    using assms(1) by (rule visited_trans(1))
  finally show ?thesis .
qed

lemma visited_element:
  assumes "JArr items \<in> set (visited rule)" and "x \<in> set items"
  shows "set (visited x) \<subseteq> set (visited rule)"
proof -
  have "set (visited x) \<subseteq> set (visited_items items)"
    using assms(2) by (rule visited_items_mem)
  then have "set (visited x) \<subseteq> set (visited (JArr items))"
    by auto
  also have "\<dots> \<subseteq> set (visited rule)"
    using assms(1) by (rule visited_trans(1))
  finally show ?thesis .
qed

lemma visited_default:
  assumes "JObj props \<in> set (visited rule)"
    and "own_property (JObj props) ''var'' = Some (JArr (path # rest))"
    and "dflt \<in> set rest"
  shows "set (visited dflt) \<subseteq> set (visited rule)"
proof -
  have "(''var'', JArr (path # rest)) \<in> set props"
    using assms(2) by (simp add: map_of_SomeD)
  with assms(1) have "set (visited (JArr (path # rest))) \<subseteq> set (visited rule)"
    by (rule visited_property_value)
  then have "JArr (path # rest) \<in> set (visited rule)"
    by auto
  moreover have "dflt \<in> set (path # rest)"
    using assms(3) by simp
  ultimately show ?thesis
    by (rule visited_element)
qed

section \<open>Claims about the key extractor\<close>

text \<open>
  C1. For every rule, \<open>getRequiredKeys\<close> returns the recorded var paths deduplicated by
  first occurrence: the paths recorded during the pre-order, left-to-right traversal
  (\<open>recorded\<close>), each kept once, where it first occurs (\<open>dedup_first\<close>). The result has no
  repetition, holds exactly the recorded paths, and for every \<open>n\<close> it starts with the
  deduplication of the first \<open>n\<close> recorded paths: a later occurrence never moves a path.
\<close>

theorem getRequiredKeys_dedup_first:
  "getRequiredKeys rule = Inr (dedup_first (recorded rule))
   \<and> distinct (dedup_first (recorded rule))
   \<and> set (dedup_first (recorded rule)) = set (recorded rule)
   \<and> (\<exists>later. dedup_first (recorded rule) = dedup_first (take n (recorded rule)) @ later)"
proof -
  have "dedup_first (take n (recorded rule) @ drop n (recorded rule))
      = dedup_first (take n (recorded rule))
        @ dedup_first (filter (\<lambda>y. y \<notin> set (take n (recorded rule))) (drop n (recorded rule)))"
    by (rule dedup_first_append)
  then have "\<exists>later. dedup_first (recorded rule) = dedup_first (take n (recorded rule)) @ later"
    by simp
  then show ?thesis
    by (simp add: getRequiredKeys_recorded set_dedup_first distinct_dedup_first)
qed

text \<open>
  C2. At an object node that the traversal visits and that has a property \<open>var\<close>
  (\<open>'var' in obj\<close> holds, \<open>obj.var\<close> is \<open>varValue\<close>): when \<open>varValue\<close> is a string,
  lines 64 to 73 add that string to the set, and it is in the result of
  \<open>getRequiredKeys\<close>; when it is an array whose first element is a string, the same holds
  of that first element; for any other value the set is left as it was.
\<close>

theorem record_var_cases:
  assumes visited: "JObj props \<in> set (visited rule)"
    and present: "js_in ''var'' (JObj props) = Inr True"
    and varValue: "js_get (JObj props) ''var'' = Inr varValue"
  shows "(\<forall>s. varValue = JStr s \<longrightarrow>
            record_var (JObj props) keys = Inr (Set_add keys s)
            \<and> (\<exists>ks. getRequiredKeys rule = Inr ks \<and> s \<in> set ks))
       \<and> (\<forall>s rest. varValue = JArr (JStr s # rest) \<longrightarrow>
            record_var (JObj props) keys = Inr (Set_add keys s)
            \<and> (\<exists>ks. getRequiredKeys rule = Inr ks \<and> s \<in> set ks))
       \<and> ((\<forall>s. varValue \<noteq> JStr s) \<and> (\<forall>s rest. varValue \<noteq> JArr (JStr s # rest)) \<longrightarrow>
            record_var (JObj props) keys = Inr keys)"
proof -
  have own: "map_of props ''var'' = Some varValue"
    using present varValue by (rule own_var)
  obtain ks where ks: "getRequiredKeys rule = Inr ks"
    by (simp add: getRequiredKeys_recorded)
  have sub: "set (var_path props) \<subseteq> set ks"
    using visited ks by (rule var_path_recorded)
  have str: "record_var (JObj props) keys = Inr (Set_add keys s) \<and> s \<in> set ks"
    if "varValue = JStr s" for s
    using that own sub by (simp add: record_var_JObj var_path_def)
  have arr: "record_var (JObj props) keys = Inr (Set_add keys s) \<and> s \<in> set ks"
    if "varValue = JArr (JStr s # rest)" for s rest
    using that own sub by (simp add: record_var_JObj var_path_def)
  have other: "record_var (JObj props) keys = Inr keys"
    if "\<forall>s. varValue \<noteq> JStr s" and "\<forall>s rest. varValue \<noteq> JArr (JStr s # rest)"
    using that own
    by (simp add: record_var_JObj var_path_def split: jsvalue.splits list.splits)
  show ?thesis
    using str arr other ks by blast
qed

theorem record_var_cases_witness:
  "record_var (JObj [(''var'', JStr ''age'')]) [] = Inr [''age'']
   \<and> (\<exists>ks. getRequiredKeys (JArr [JObj [(''var'', JStr ''age'')]]) = Inr ks \<and> ''age'' \<in> set ks)"
proof -
  have v: "JObj [(''var'', JStr ''age'')] \<in> set (visited (JArr [JObj [(''var'', JStr ''age'')]]))"
    by simp
  have p: "js_in ''var'' (JObj [(''var'', JStr ''age'')]) = Inr True"
    by (simp add: property_def)
  have g: "js_get (JObj [(''var'', JStr ''age'')]) ''var'' = Inr (JStr ''age'')"
    by (simp add: property_def)
  show ?thesis
    using record_var_cases[OF v p g, of "[]"] by (simp add: Set_add_def)
qed

text \<open>
  C6. When a visited object node has a \<open>var\<close> property whose value is an array
  \<open>path # rest\<close>, and an element of \<open>rest\<close> (the default value) contains an object node
  whose \<open>var\<close> property is the string \<open>q\<close>, then \<open>q\<close> is in the result of
  \<open>getRequiredKeys\<close>: the descent into every property value reaches it.
\<close>

theorem default_nested_var_found:
  assumes node: "JObj props \<in> set (visited rule)"
    and var: "own_property (JObj props) ''var'' = Some (JArr (path # rest))"
    and dflt: "dflt \<in> set rest"
    and inner: "JObj inner \<in> set (visited dflt)"
    and q: "own_property (JObj inner) ''var'' = Some (JStr q)"
  shows "\<exists>ks. getRequiredKeys rule = Inr ks \<and> q \<in> set ks"
proof -
  obtain ks where ks: "getRequiredKeys rule = Inr ks"
    by (simp add: getRequiredKeys_recorded)
  have "set (visited dflt) \<subseteq> set (visited rule)"
    using node var dflt by (rule visited_default)
  with inner have "JObj inner \<in> set (visited rule)"
    by auto
  then have "set (var_path inner) \<subseteq> set ks"
    using ks by (rule var_path_recorded)
  moreover have "var_path inner = [q]"
    using q by (simp add: var_path_def)
  ultimately show ?thesis
    using ks by simp
qed

theorem default_nested_var_found_witness:
  "\<exists>ks. getRequiredKeys
          (JObj [(''=='', JArr [JObj [(''var'', JArr [JStr ''status'', JObj [(''var'', JStr ''fallback'')]])],
                               JStr ''active''])]) = Inr ks
        \<and> ''fallback'' \<in> set ks"
proof -
  let ?inner = "[(''var'', JStr ''fallback'')]"
  let ?props = "[(''var'', JArr [JStr ''status'', JObj ?inner])]"
  let ?rule = "JObj [(''=='', JArr [JObj ?props, JStr ''active''])]"
  have node: "JObj ?props \<in> set (visited ?rule)"
    by simp
  have var: "own_property (JObj ?props) ''var'' = Some (JArr (JStr ''status'' # [JObj ?inner]))"
    by simp
  have dflt: "JObj ?inner \<in> set [JObj ?inner]"
    by simp
  have inner: "JObj ?inner \<in> set (visited (JObj ?inner))"
    by simp
  have q: "own_property (JObj ?inner) ''var'' = Some (JStr ''fallback'')"
    by simp
  show ?thesis
    using default_nested_var_found[OF node var dflt inner q] .
qed

text \<open>
  C7, as stated, fails: in the rule \<open>{"var": ["a", {"var": "b"}]}\<close> the default value
  \<open>{"var": "b"}\<close> is visited, and \<open>b\<close>, which occurs nowhere else, is in the result.
\<close>

theorem default_is_scanned_counterexample:
  "getRequiredKeys (JObj [(''var'', JArr [JStr ''a'', JObj [(''var'', JStr ''b'')]])])
     = Inr [''a'', ''b'']
   \<and> JObj [(''var'', JStr ''b'')]
       \<in> set (visited (JObj [(''var'', JArr [JStr ''a'', JObj [(''var'', JStr ''b'')]])]))"
  by (simp add: getRequiredKeys_recorded var_path_def)

text \<open>
  C7, amended. At a visited node \<open>{"var": [path, ...]}\<close> with a string \<open>path\<close>, lines
  64 to 73 add \<open>path\<close> alone, whatever the later elements of the array are; the loop
  over the property values (lines 76 to 78) then visits every later element of the array,
  and the paths recorded inside them are in the result of \<open>getRequiredKeys\<close>.
\<close>

theorem default_elements_traversed:
  assumes node: "JObj props \<in> set (visited rule)"
    and var: "own_property (JObj props) ''var'' = Some (JArr (JStr path # rest))"
  shows "record_var (JObj props) keys = Inr (Set_add keys path)
       \<and> set rest \<subseteq> set (visited rule)
       \<and> (\<exists>ks. getRequiredKeys rule = Inr ks \<and> (\<forall>dflt \<in> set rest. set (recorded dflt) \<subseteq> set ks))"
proof -
  obtain ks where ks: "getRequiredKeys rule = Inr ks"
    by (simp add: getRequiredKeys_recorded)
  have step: "record_var (JObj props) keys = Inr (Set_add keys path)"
    using var by (simp add: record_var_JObj var_path_def)
  have sub: "set (visited dflt) \<subseteq> set (visited rule)" if "dflt \<in> set rest" for dflt
    using node var that by (rule visited_default)
  have trav: "set rest \<subseteq> set (visited rule)"
    using sub visited_self by blast
  have "set (recorded dflt) \<subseteq> set ks" if "dflt \<in> set rest" for dflt
  proof -
    have "dflt \<in> set (visited rule)"
      using trav that by auto
    then have "set (recorded dflt) \<subseteq> set (recorded rule)"
      by (rule recorded_visited(1))
    then show ?thesis
      using keys_of_rule[OF ks] by simp
  qed
  then show ?thesis
    using step trav ks by blast
qed

theorem default_elements_traversed_witness:
  "record_var (JObj [(''var'', JArr [JStr ''a'', JObj [(''var'', JStr ''b'')]])]) [] = Inr [''a'']
   \<and> JObj [(''var'', JStr ''b'')]
       \<in> set (visited (JObj [(''var'', JArr [JStr ''a'', JObj [(''var'', JStr ''b'')]])]))
   \<and> (\<exists>ks. getRequiredKeys (JObj [(''var'', JArr [JStr ''a'', JObj [(''var'', JStr ''b'')]])]) = Inr ks
         \<and> ''b'' \<in> set ks)"
proof -
  let ?props = "[(''var'', JArr [JStr ''a'', JObj [(''var'', JStr ''b'')]])]"
  have node: "JObj ?props \<in> set (visited (JObj ?props))"
    by simp
  have var: "own_property (JObj ?props) ''var''
      = Some (JArr (JStr ''a'' # [JObj [(''var'', JStr ''b'')]]))"
    by simp
  show ?thesis
    using default_elements_traversed[OF node var, of "[]"]
    by (simp add: Set_add_def var_path_def)
qed

text \<open>
  C9. At a visited object node that has a \<open>var\<close> property and any other properties,
  lines 64 to 73 do what they do at the node \<open>{"var": varValue}\<close> with that property
  alone, and the path they record is in the result; the value \<open>v\<close> of every property
  \<open>(k, v)\<close> of the node is visited, and what is recorded inside it is in the result.
\<close>

theorem var_with_other_properties:
  assumes node: "JObj props \<in> set (visited rule)"
    and var: "own_property (JObj props) ''var'' = Some varValue"
    and other: "(k, v) \<in> set props"
  shows "record_var (JObj props) keys = record_var (JObj [(''var'', varValue)]) keys
       \<and> set (visited v) \<subseteq> set (visited rule)
       \<and> (\<exists>ks. getRequiredKeys rule = Inr ks
             \<and> set (var_path [(''var'', varValue)]) \<subseteq> set ks
             \<and> set (recorded v) \<subseteq> set ks)"
proof -
  obtain ks where ks: "getRequiredKeys rule = Inr ks"
    by (simp add: getRequiredKeys_recorded)
  have same: "var_path props = var_path [(''var'', varValue)]"
    using var by (simp add: var_path_def)
  then have step: "record_var (JObj props) keys = record_var (JObj [(''var'', varValue)]) keys"
    by (simp add: record_var_JObj)
  have sub: "set (visited v) \<subseteq> set (visited rule)"
    using node other by (rule visited_property_value)
  then have "v \<in> set (visited rule)"
    using visited_self by blast
  then have "set (recorded v) \<subseteq> set (recorded rule)"
    by (rule recorded_visited(1))
  then have rec: "set (recorded v) \<subseteq> set ks"
    using keys_of_rule[OF ks] by simp
  have "set (var_path props) \<subseteq> set ks"
    using node ks by (rule var_path_recorded)
  then show ?thesis
    using same step sub rec ks by auto
qed

theorem var_with_other_properties_witness:
  "record_var (JObj [(''var'', JStr ''a''), (''extra'', JObj [(''var'', JStr ''b'')])]) []
     = record_var (JObj [(''var'', JStr ''a'')]) []
   \<and> (\<exists>ks. getRequiredKeys (JObj [(''var'', JStr ''a''), (''extra'', JObj [(''var'', JStr ''b'')])]) = Inr ks
         \<and> ''a'' \<in> set ks \<and> ''b'' \<in> set ks)"
proof -
  let ?props = "[(''var'', JStr ''a''), (''extra'', JObj [(''var'', JStr ''b'')])]"
  have node: "JObj ?props \<in> set (visited (JObj ?props))"
    by simp
  have var: "own_property (JObj ?props) ''var'' = Some (JStr ''a'')"
    by simp
  have other: "(''extra'', JObj [(''var'', JStr ''b'')]) \<in> set ?props"
    by simp
  show ?thesis
    using var_with_other_properties[OF node var other, of "[]"]
    by (simp add: var_path_def)
qed

section \<open>Claims about the validator\<close>

lemma hasKey_loop_path_exists: "hasKey_loop current segments = Inr (path_exists current segments)"
proof (induction segments arbitrary: current)
  case Nil
  then show ?case by simp
next
  case (Cons segment segments)
  show ?case
    by (cases current) (simp_all add: Cons split: option.splits)
qed

lemma hasKey_path_exists: "hasKey data keyPath = Inr (path_exists data (split_dot keyPath))"
  by (simp add: hasKey_def hasKey_loop_path_exists)

lemma split_dot_no_dot: "CHR ''.'' \<notin> set k \<Longrightarrow> split_dot k = [k]"
  by (induction k) auto

lemma split_dot_nonempty: "split_dot k \<noteq> []"
  by (induction k) (auto split: list.splits)

lemma own_property_object:
  "own_property v k = Some x \<Longrightarrow> \<not> is_nullish v \<and> typeof v = ''object''"
  by (cases v) simp_all

lemma check_keys_all:
  "check_keys data ks = Inr (\<forall>p \<in> set ks. hasKey data p = Inr True)"
  by (induction ks) (auto simp: hasKey_path_exists)

lemma check_keys_short_circuit:
  "hasKey data p = Inr False \<Longrightarrow> \<forall>q \<in> set before. hasKey data q = Inr True \<Longrightarrow>
     check_keys data (before @ p # after) = Inr False"
  by (induction before) auto

lemma empty_not_inherited: "own_property data [] = None \<Longrightarrow> property data [] = None"
  by (cases data)
     (simp_all add: property_def object_prototype_methods_def array_prototype_methods_def)

text \<open>
  C3. \<open>canExecuteRule\<close> returns \<open>true\<close> when \<open>getRequiredKeys(rule)\<close> is empty,
  whatever the data is. Otherwise it returns \<open>true\<close> exactly when \<open>hasKey\<close> returns
  \<open>true\<close> for every required key; and when the keys before \<open>p\<close> pass and \<open>p\<close> fails,
  the result is \<open>false\<close> whatever the keys after \<open>p\<close> are.
\<close>

theorem canExecuteRule_iff:
  "(getRequiredKeys rule = Inr [] \<longrightarrow> canExecuteRule rule data = Inr True)
   \<and> (\<forall>ks. getRequiredKeys rule = Inr ks \<and> ks \<noteq> [] \<longrightarrow>
         canExecuteRule rule data = Inr (\<forall>p \<in> set ks. hasKey data p = Inr True))
   \<and> (\<forall>before p after.
         getRequiredKeys rule = Inr (before @ p # after)
         \<and> (\<forall>q \<in> set before. hasKey data q = Inr True) \<and> hasKey data p = Inr False \<longrightarrow>
         canExecuteRule rule data = Inr False)"
  by (auto simp: canExecuteRule_def check_keys_all check_keys_short_circuit
      simp del: check_keys.simps)

theorem canExecuteRule_iff_witness:
  "canExecuteRule (JObj [(''=='', JArr [JNum 1, JNum 1])]) JUndefined = Inr True
   \<and> canExecuteRule (JObj [(''>'', JArr [JObj [(''var'', JStr ''age'')], JNum 18])])
        (JObj [(''name'', JStr ''Alice'')]) = Inr False
   \<and> canExecuteRule (JObj [(''>'', JArr [JObj [(''var'', JStr ''age'')], JNum 18])])
        (JObj [(''age'', JNum 25)]) = Inr True"
proof -
  let ?static = "JObj [(''=='', JArr [JNum 1, JNum 1])]"
  let ?rule = "JObj [(''>'', JArr [JObj [(''var'', JStr ''age'')], JNum 18])]"
  have s: "getRequiredKeys ?static = Inr []"
    by (simp add: getRequiredKeys_recorded var_path_def)
  have r: "getRequiredKeys ?rule = Inr [''age''] \<and> [''age''] \<noteq> []"
    by (simp add: getRequiredKeys_recorded var_path_def)
  have absent: "hasKey (JObj [(''name'', JStr ''Alice'')]) ''age'' = Inr False"
    by (simp add: hasKey_def property_def object_prototype_methods_def)
  have present: "hasKey (JObj [(''age'', JNum 25)]) ''age'' = Inr True"
    by (simp add: hasKey_def property_def)
  from canExecuteRule_iff[of ?static JUndefined] s
  have 1: "canExecuteRule ?static JUndefined = Inr True"
    by blast
  from canExecuteRule_iff[of ?rule "JObj [(''name'', JStr ''Alice'')]"] r
  have "canExecuteRule ?rule (JObj [(''name'', JStr ''Alice'')])
      = Inr (\<forall>p \<in> set [''age'']. hasKey (JObj [(''name'', JStr ''Alice'')]) p = Inr True)"
    by blast
  then have 2: "canExecuteRule ?rule (JObj [(''name'', JStr ''Alice'')]) = Inr False"
    using absent by simp
  from canExecuteRule_iff[of ?rule "JObj [(''age'', JNum 25)]"] r
  have "canExecuteRule ?rule (JObj [(''age'', JNum 25)])
      = Inr (\<forall>p \<in> set [''age'']. hasKey (JObj [(''age'', JNum 25)]) p = Inr True)"
    by blast
  then have 3: "canExecuteRule ?rule (JObj [(''age'', JNum 25)]) = Inr True"
    using present by simp
  show ?thesis
    using 1 2 3 by simp
qed

text \<open>
  C4, as stated, fails: the test is \<open>key in current\<close>, which also finds inherited
  properties. The empty object does not own a property \<open>toString\<close>, and
  \<open>hasKey({}, "toString")\<close> is \<open>true\<close>.
\<close>

theorem hasKey_inherited_counterexample:
  "own_property (JObj []) ''toString'' = None \<and> hasKey (JObj []) ''toString'' = Inr True"
  by (simp add: hasKey_def property_def object_prototype_methods_def)

text \<open>
  C4, amended. \<open>hasKey(data, path)\<close> returns whether the path exists in the sense of
  \<open>path_exists\<close>: at each segment, in order, the current value is neither \<open>null\<close> nor
  \<open>undefined\<close>, is an object, and has a property of that name, own or inherited, into
  whose value the walk descends; with all segments consumed the result is \<open>true\<close>.
  A key without a dot that the data owns is present whatever its value \<open>v\<close> is
  (\<open>null\<close> and \<open>undefined\<close> too); when the first segment names no property of the
  data, neither own nor inherited, the result is \<open>false\<close>.
\<close>

theorem hasKey_path_exists_iff:
  "hasKey data keyPath = Inr (path_exists data (split_dot keyPath))
   \<and> (CHR ''.'' \<notin> set keyPath \<and> own_property data keyPath = Some v \<longrightarrow>
         hasKey data keyPath = Inr True)
   \<and> (property data (hd (split_dot keyPath)) = None \<longrightarrow> hasKey data keyPath = Inr False)"
proof -
  have present: "hasKey data keyPath = Inr True"
    if "CHR ''.'' \<notin> set keyPath" and "own_property data keyPath = Some v"
    using that own_property_object[OF that(2)]
    by (simp add: hasKey_path_exists split_dot_no_dot property_def)
  have absent: "hasKey data keyPath = Inr False"
    if "property data (hd (split_dot keyPath)) = None"
    using that by (cases "split_dot keyPath") (simp_all add: hasKey_path_exists split_dot_nonempty)
  show ?thesis
    using present absent by (simp add: hasKey_path_exists)
qed

theorem hasKey_path_exists_iff_witness:
  "hasKey (JObj [(''value'', JNull)]) ''value'' = Inr True
   \<and> hasKey (JObj []) ''value'' = Inr False"
proof -
  have 1: "CHR ''.'' \<notin> set ''value'' \<and> own_property (JObj [(''value'', JNull)]) ''value'' = Some JNull"
    by simp
  have 2: "property (JObj []) (hd (split_dot ''value'')) = None"
    by (simp add: property_def object_prototype_methods_def)
  show ?thesis
    using hasKey_path_exists_iff[of "JObj [(''value'', JNull)]" "''value''" JNull]
      hasKey_path_exists_iff[of "JObj []" "''value''" JNull] 1 2
    by blast
qed

lemma depth_pos: "depth node \<noteq> 0"
  by (cases node) simp_all

lemma traverse_stack_enough:
  "depth node \<le> frames \<Longrightarrow> traverse_stack frames node keys = traverse node keys"
  "depth_items items \<le> frames \<Longrightarrow> traverse_items_stack frames items keys = traverse_items items keys"
  "depth_values props \<le> frames \<Longrightarrow> traverse_values_stack frames props keys = traverse_values props keys"
  by (induction frames node keys and frames items keys and frames props keys
      rule: traverse_stack_traverse_items_stack_traverse_values_stack.induct)
     (auto simp: depth_pos split: sum.splits)

lemma traverse_stack_overflow:
  "frames < depth node \<Longrightarrow> traverse_stack frames node keys = Inl RangeError"
  "frames < depth_items items \<Longrightarrow> traverse_items_stack frames items keys = Inl RangeError"
  "frames < depth_values props \<Longrightarrow> traverse_values_stack frames props keys = Inl RangeError"
proof (induction frames node keys and frames items keys and frames props keys
      rule: traverse_stack_traverse_items_stack_traverse_values_stack.induct)
  case (13 frames item rest keys)
  show ?case
  proof (cases "frames < depth item")
    case True
    then show ?thesis using 13 by simp
  next
    case False
    then have "traverse_stack frames item keys = traverse item keys"
      by (simp add: traverse_stack_enough)
    moreover have "frames < depth_items rest"
      using False 13(3) by simp
    ultimately show ?thesis
      using 13(2) by (simp add: traverse_fold)
  qed
next
  case (15 frames kv rest keys)
  show ?case
  proof (cases "frames < depth (snd kv)")
    case True
    then show ?thesis using 15 by simp
  next
    case False
    then have "traverse_stack frames (snd kv) keys = traverse (snd kv) keys"
      by (simp add: traverse_stack_enough)
    moreover have "frames < depth_values rest"
      using False 15(3) by simp
    ultimately show ?thesis
      using 15(2) by (simp add: traverse_fold)
  qed
qed (auto simp: record_var_JObj record_var_JObjectPrototype)

lemma depth_nest: "depth (nest n v) = n + depth v"
  by (induction n) simp_all

lemma getRequiredKeys_stack_cases:
  "getRequiredKeys_stack frames rule =
     (if depth rule \<le> frames then getRequiredKeys rule else Inl RangeError)"
  by (simp add: getRequiredKeys_stack_def getRequiredKeys_def traverse_stack_enough
      traverse_stack_overflow)

text \<open>
  C5, as stated, fails: the recursion of \<open>traverse\<close> has no bound on its depth. On a
  stack with room for 5000 nested calls, the rule \<open>{"var": "x"}\<close> inside 5000 nested
  arrays, a JSON value of depth 5002, makes \<open>getRequiredKeys\<close> and \<open>canExecuteRule\<close>
  raise a \<open>RangeError\<close>.
\<close>

theorem deep_rule_overflows_counterexample:
  "depth (nest 5000 (JObj [(''var'', JStr ''x'')])) = 5002
   \<and> getRequiredKeys_stack 5000 (nest 5000 (JObj [(''var'', JStr ''x'')])) = Inl RangeError
   \<and> canExecuteRule_stack 5000 (nest 5000 (JObj [(''var'', JStr ''x'')])) (JObj []) = Inl RangeError"
  by (simp add: canExecuteRule_stack_def getRequiredKeys_stack_cases depth_nest)

text \<open>
  C5, amended. For every rule whose nesting depth the call stack has room for, and every
  data value, \<open>getRequiredKeys\<close> and \<open>canExecuteRule\<close> return a result, the one they
  return on a stack that is never full. On a rule nested deeper than that, both raise a
  \<open>RangeError\<close>. Neither ever raises a \<open>TypeError\<close>: the guards of \<open>traverse\<close> and of
  \<open>hasKey\<close> keep \<open>in\<close> and the property reads away from \<open>null\<close>, \<open>undefined\<close> and
  the primitives.
\<close>

theorem analyzer_validator_total_within_stack:
  "(depth rule \<le> frames \<longrightarrow>
      getRequiredKeys_stack frames rule = Inr (dedup_first (recorded rule))
      \<and> (\<exists>b. canExecuteRule_stack frames rule data = Inr b
             \<and> canExecuteRule rule data = Inr b))
   \<and> (frames < depth rule \<longrightarrow>
      getRequiredKeys_stack frames rule = Inl RangeError
      \<and> canExecuteRule_stack frames rule data = Inl RangeError)
   \<and> getRequiredKeys_stack frames rule \<noteq> Inl TypeError
   \<and> canExecuteRule_stack frames rule data \<noteq> Inl TypeError"
proof -
  have fits: "getRequiredKeys_stack frames rule = Inr (dedup_first (recorded rule))
      \<and> (\<exists>b. canExecuteRule_stack frames rule data = Inr b \<and> canExecuteRule rule data = Inr b)"
    if "depth rule \<le> frames"
    using that
    by (auto simp: canExecuteRule_stack_def canExecuteRule_def getRequiredKeys_stack_cases
        getRequiredKeys_recorded check_keys_all)
  have deep: "getRequiredKeys_stack frames rule = Inl RangeError
      \<and> canExecuteRule_stack frames rule data = Inl RangeError"
    if "frames < depth rule"
    using that by (simp add: canExecuteRule_stack_def getRequiredKeys_stack_cases)
  have "depth rule \<le> frames \<or> frames < depth rule"
    by arith
  then have "getRequiredKeys_stack frames rule \<noteq> Inl TypeError
      \<and> canExecuteRule_stack frames rule data \<noteq> Inl TypeError"
    using fits deep by auto
  then show ?thesis
    using fits deep by blast
qed

theorem analyzer_validator_total_within_stack_witness:
  "getRequiredKeys_stack 5000 (JObj [(''>'', JArr [JObj [(''var'', JStr ''age'')], JNum 18])])
     = Inr [''age'']
   \<and> (\<exists>b. canExecuteRule_stack 5000
             (JObj [(''>'', JArr [JObj [(''var'', JStr ''age'')], JNum 18])]) JNull = Inr b)
   \<and> getRequiredKeys_stack 3 (JObj [(''>'', JArr [JObj [(''var'', JStr ''age'')], JNum 18])])
     = Inl RangeError"
proof -
  let ?rule = "JObj [(''>'', JArr [JObj [(''var'', JStr ''age'')], JNum 18])]"
  have d: "depth ?rule = 4"
    by simp
  have r: "dedup_first (recorded ?rule) = [''age'']"
    by (simp add: var_path_def)
  have fits: "depth ?rule \<le> 5000" and deep: "3 < depth ?rule"
    using d by simp_all
  from analyzer_validator_total_within_stack[where rule = ?rule and frames = 5000 and data = JNull]
  have 1: "getRequiredKeys_stack 5000 ?rule = Inr (dedup_first (recorded ?rule))
      \<and> (\<exists>b. canExecuteRule_stack 5000 ?rule JNull = Inr b)"
    using fits by blast
  from analyzer_validator_total_within_stack[where rule = ?rule and frames = 3 and data = JNull]
  have 2: "getRequiredKeys_stack 3 ?rule = Inl RangeError"
    using deep by blast
  show ?thesis
    using 1 2 r by simp
qed

text \<open>
  C10. For the rule \<open>{"var": ""}\<close>, \<open>getRequiredKeys\<close> returns the one-element
  sequence of the empty string, and \<open>canExecuteRule\<close> returns \<open>false\<close> for every data
  value that does not own a property whose name is the empty string.
\<close>

theorem var_empty_path:
  "getRequiredKeys (JObj [(''var'', JStr [])]) = Inr [[]]
   \<and> (own_property data [] = None \<longrightarrow>
        canExecuteRule (JObj [(''var'', JStr [])]) data = Inr False)"
proof -
  have keys: "getRequiredKeys (JObj [(''var'', JStr [])]) = Inr [[]]"
    by (simp add: getRequiredKeys_recorded var_path_def)
  have "hasKey data [] = Inr False" if "own_property data [] = None"
    using empty_not_inherited[OF that] by (simp add: hasKey_path_exists)
  then show ?thesis
    using keys by (simp add: canExecuteRule_def)
qed

theorem var_empty_path_witness:
  "own_property (JObj [(''a'', JNum 1)]) [] = None
   \<and> canExecuteRule (JObj [(''var'', JStr [])]) (JObj [(''a'', JNum 1)]) = Inr False"
proof -
  have h: "own_property (JObj [(''a'', JNum 1)]) [] = None"
    by simp
  show ?thesis
    using var_empty_path[of "JObj [(''a'', JNum 1)]"] h by blast
qed

section \<open>Claims about the evaluator\<close>

text \<open>
  C8. When the engine throws on the rule and the data (\<open>{}\<close> when the data is
  \<open>null\<close> or \<open>undefined\<close>), \<open>evaluateRule\<close> throws a new \<open>Error\<close> whose message is
  \<open>Failed to evaluate rule: \<close> followed by the message of the engine's failure when that
  is an \<open>Error\<close>, and by \<open>Unknown error\<close> when it is any other value. What the engine
  threw is never what \<open>evaluateRule\<close> throws.
\<close>

theorem evaluateRule_normalizes:
  assumes "jsonLogic_apply rule (if is_nullish data then JObj [] else data) = Inl failure"
  shows "evaluateRule jsonLogic_apply rule data =
           Inl (ErrorInstance (''Failed to evaluate rule: '' @
                  (case failure of
                     ErrorInstance message \<Rightarrow> message
                   | OtherThrown v \<Rightarrow> ''Unknown error'')))"
  using assms by (simp add: evaluateRule_def split: thrown.splits)

theorem evaluateRule_normalizes_witness:
  "evaluateRule (\<lambda>rule data. Inl (ErrorInstance ''Unrecognized operation foo''))
     (JObj [(''foo'', JArr [])]) JUndefined
   = Inl (ErrorInstance ''Failed to evaluate rule: Unrecognized operation foo'')"
proof -
  have h: "(\<lambda>rule data. Inl (ErrorInstance ''Unrecognized operation foo'') :: thrown + jsvalue)
      (JObj [(''foo'', JArr [])]) (if is_nullish JUndefined then JObj [] else JUndefined)
      = Inl (ErrorInstance ''Unrecognized operation foo'')"
    by simp
  show ?thesis
    using evaluateRule_normalizes[OF h] by simp
qed


end
